theory Spec2Isabelle
  imports Complex_Main
begin

section \<open>Time series graphs: the visibility graphs of \<^verbatim>\<open>networkx/generators/time_series.py\<close>\<close>

text \<open>
  The three generators of the module turn a numeric series into a graph on the indices of
  the series. A series is a list over an ordered field (exact arithmetic, as Python computes
  on \<^verbatim>\<open>fractions.Fraction\<close> values; the rounding of binary floating point is not part of
  this development). Indices are natural numbers.
\<close>

subsection \<open>The graph container\<close>

text \<open>
  Modelled from the spec: the classes \<^verbatim>\<open>nx.Graph\<close> and \<^verbatim>\<open>nx.DiGraph\<close> and the functions
  \<^verbatim>\<open>nx.path_graph\<close>, \<^verbatim>\<open>nx.set_node_attributes\<close> and \<^verbatim>\<open>add_edge\<close> are not part of the
  module. The spec asks of the graph type: creation of a path over \<open>n\<close> nodes, setting a
  named attribute on every node from a mapping keyed by index, adding an edge between two
  nodes idempotently, and, for the directed form, distinguishing edge direction. A graph
  keeps its nodes in insertion order, the attribute \<^verbatim>\<open>value\<close> of each node, and its edges in
  insertion order, each as the pair it was added as.
\<close>

record 'a graph =
  directed :: bool
  nodes :: "nat list"
  node_value :: "nat \<rightharpoonup> 'a"
  edges :: "(nat \<times> nat) list"

text \<open>
  Modelled from the spec: \<^verbatim>\<open>G.has_edge(u, v)\<close>. An undirected graph does not distinguish
  the two orientations of an edge, a directed graph does.
\<close>

definition has_edge :: "'a graph \<Rightarrow> nat \<Rightarrow> nat \<Rightarrow> bool" where
  "has_edge G u v =
     (if directed G then (u, v) \<in> set (edges G)
      else (u, v) \<in> set (edges G) \<or> (v, u) \<in> set (edges G))"

text \<open>
  Modelled from the spec: \<^verbatim>\<open>G.add_node(u)\<close>, which leaves an existing node alone.
\<close>

definition add_node :: "'a graph \<Rightarrow> nat \<Rightarrow> 'a graph" where
  "add_node G u = (if u \<in> set (nodes G) then G else G\<lparr>nodes := nodes G @ [u]\<rparr>)"

text \<open>
  Modelled from the spec: \<^verbatim>\<open>G.add_edge(u, v)\<close>. Adding is idempotent: an edge that is
  already there is not added again. An endpoint that is not yet a node becomes one, so that
  the node count of a result is not fixed by the container alone.
\<close>

definition add_edge :: "'a graph \<Rightarrow> nat \<Rightarrow> nat \<Rightarrow> 'a graph" where
  "add_edge G u v =
     (let G = add_node (add_node G u) v
      in if has_edge G u v then G else G\<lparr>edges := edges G @ [(u, v)]\<rparr>)"

text \<open>
  Modelled from the spec: \<^verbatim>\<open>nx.path_graph(n, create_using)\<close>, the nodes \<open>0..n-1\<close> in
  order and an edge from each index to its successor; the flag says whether
  \<^verbatim>\<open>create_using\<close> is a \<^verbatim>\<open>DiGraph\<close>.
\<close>

definition path_graph :: "nat \<Rightarrow> bool \<Rightarrow> 'a graph" where
  "path_graph n d =
     \<lparr>directed = d, nodes = [0..<n], node_value = Map.empty,
      edges = map (\<lambda>i. (i, Suc i)) [0..<n - 1]\<rparr>"

text \<open>
  Modelled from the spec: \<^verbatim>\<open>nx.set_node_attributes(G, values, "value")\<close> with a
  dictionary \<^verbatim>\<open>values\<close>: every key that is a node of the graph gets its value as attribute,
  the other keys are skipped.
\<close>

definition set_node_attributes :: "'a graph \<Rightarrow> (nat \<rightharpoonup> 'a) \<Rightarrow> 'a graph" where
  "set_node_attributes G values =
     G\<lparr>node_value := (\<lambda>k. if k \<in> set (nodes G) \<and> values k \<noteq> None then values k
                           else node_value G k)\<rparr>"

definition number_of_nodes :: "'a graph \<Rightarrow> nat" where
  "number_of_nodes G = length (nodes G)"

definition number_of_edges :: "'a graph \<Rightarrow> nat" where
  "number_of_edges G = length (edges G)"

subsection \<open>Python's sequence operations\<close>

text \<open>
  \<^verbatim>\<open>enumerate(xs, start=n)\<close> is \<^const>\<open>List.enumerate\<close>. \<^verbatim>\<open>xs[a:b]\<close> for indices that are
  not negative is \<open>slice\<close>, and \<^verbatim>\<open>itertools.combinations(xs, 2)\<close> lists the pairs of
  positions in lexicographic order, the earlier position first.
\<close>

definition slice :: "'a list \<Rightarrow> nat \<Rightarrow> nat \<Rightarrow> 'a list" where
  "slice xs a b = drop a (take b xs)"

fun combinations2 :: "'a list \<Rightarrow> ('a \<times> 'a) list" where
  "combinations2 [] = []"
| "combinations2 (x # xs) = map (Pair x) xs @ combinations2 xs"

text \<open>
  \<^verbatim>\<open>dict(pairs)\<close> stores the pairs from left to right: a later pair overrides an earlier
  one with the same key.
\<close>

definition dict :: "('k \<times> 'v) list \<Rightarrow> ('k \<rightharpoonup> 'v)" where
  "dict kvs = fold (\<lambda>(k, v) m. m(k \<mapsto> v)) kvs Map.empty"

datatype error = ZeroDivisionError

text \<open>Python's \<^verbatim>\<open>a / b\<close>: it raises when the divisor is zero.\<close>

definition true_div :: "'a::field \<Rightarrow> 'a \<Rightarrow> error + 'a" where
  "true_div a b = (if b = 0 then Inl ZeroDivisionError else Inr (a / b))"

text \<open>A \<^verbatim>\<open>for\<close> loop over a list whose body may raise: the first error ends the loop.\<close>

fun for_loop :: "('x \<Rightarrow> 's \<Rightarrow> error + 's) \<Rightarrow> 'x list \<Rightarrow> 's \<Rightarrow> error + 's" where
  "for_loop body [] s = Inr s"
| "for_loop body (x # xs) s =
     (case body x s of Inl e \<Rightarrow> Inl e | Inr s' \<Rightarrow> for_loop body xs s')"

subsection \<open>The three generators\<close>

text \<open>The body of the loop of \<^verbatim>\<open>visibility_graph\<close> (lines 62 to 71).\<close>

definition visibility_graph_body ::
  "'a::linordered_field list \<Rightarrow> (nat \<times> 'a) \<times> (nat \<times> 'a) \<Rightarrow> 'a graph \<Rightarrow> error + 'a graph" where
  "visibility_graph_body series = (\<lambda>((n1, t1), (n2, t2)) G.
     case true_div (t2 - t1) (of_nat n2 - of_nat n1) of
       Inl e \<Rightarrow> Inl e
     | Inr slope \<Rightarrow>
         let offset = t2 - slope * of_nat n2;
             obstructed = list_ex (\<lambda>(n, t). t \<ge> slope * of_nat n + offset)
                            (enumerate (n1 + 1) (slice series (n1 + 1) n2))
         in Inr (if \<not> obstructed then add_edge G n1 n2 else G))"

definition visibility_graph :: "'a::linordered_field list \<Rightarrow> error + 'a graph" where
  "visibility_graph series =
     (let G = path_graph (length series) False;
          G = set_node_attributes G (dict (enumerate 0 series))
      in for_loop (visibility_graph_body series) (combinations2 (enumerate 0 series)) G)"

text \<open>
  The two horizontal generators compare and take a maximum only, which does not raise on
  numbers: their loops are plain folds.
\<close>

definition horizontal_visibility_graph :: "'a::linorder list \<Rightarrow> 'a graph" where
  "horizontal_visibility_graph timeseries =
     (let G = path_graph (length timeseries) False;
          G = set_node_attributes G (dict (enumerate 0 timeseries))
      in fold (\<lambda>((n1, t1), (n2, t2)) G.
                 let obstructed = list_ex (\<lambda>(n, t). t \<ge> max t1 t2)
                                    (enumerate (n1 + 1) (slice timeseries (n1 + 1) n2))
                 in if \<not> obstructed then add_edge G n1 n2 else G)
           (combinations2 (enumerate 0 timeseries)) G)"

definition directed_horizontal_visibility_graph :: "'a::linorder list \<Rightarrow> 'a graph" where
  "directed_horizontal_visibility_graph timeseries =
     (let G = path_graph (length timeseries) True;
          G = set_node_attributes G (dict (enumerate 0 timeseries))
      in fold (\<lambda>((n1, t1), (n2, t2)) G.
                 let obstructed = list_ex (\<lambda>(n, t). t \<ge> max t1 t2)
                                    (enumerate (n1 + 1) (slice timeseries (n1 + 1) n2))
                 in if \<not> obstructed then add_edge G n1 n2 else G)
           (combinations2 (enumerate 0 timeseries)) G)"

subsection \<open>The scan, as the proofs see it\<close>

text \<open>
  All three loops add the edge of a pair exactly when a test on the pair succeeds.
  \<open>scan_step\<close> is that shape, with the test as a parameter; \<open>natural_test\<close> and
  \<open>horizontal_test\<close> are the negated \<^verbatim>\<open>obstructed\<close> of the sources, on a pair as the loop
  sees it, and \<open>natural_visible\<close> and \<open>horizontal_visible\<close> say the same on indices.
\<close>

definition scan_step ::
  "((nat \<times> 'a) \<times> (nat \<times> 'a) \<Rightarrow> bool) \<Rightarrow> (nat \<times> 'a) \<times> (nat \<times> 'a) \<Rightarrow> 'a graph \<Rightarrow> 'a graph" where
  "scan_step test c G = (if test c then add_edge G (fst (fst c)) (fst (snd c)) else G)"

definition natural_test :: "'a::linordered_field list \<Rightarrow> (nat \<times> 'a) \<times> (nat \<times> 'a) \<Rightarrow> bool" where
  "natural_test series = (\<lambda>((n1, t1), (n2, t2)).
     let slope = (t2 - t1) / (of_nat n2 - of_nat n1);
         offset = t2 - slope * of_nat n2
     in \<not> list_ex (\<lambda>(n, t). t \<ge> slope * of_nat n + offset)
            (enumerate (n1 + 1) (slice series (n1 + 1) n2)))"

definition horizontal_test :: "'a::linorder list \<Rightarrow> (nat \<times> 'a) \<times> (nat \<times> 'a) \<Rightarrow> bool" where
  "horizontal_test timeseries = (\<lambda>((n1, t1), (n2, t2)).
     \<not> list_ex (\<lambda>(n, t). t \<ge> max t1 t2)
         (enumerate (n1 + 1) (slice timeseries (n1 + 1) n2)))"

definition natural_visible :: "'a::linordered_field list \<Rightarrow> nat \<Rightarrow> nat \<Rightarrow> bool" where
  "natural_visible series i j =
     (let slope = (series ! j - series ! i) / (of_nat j - of_nat i);
          offset = series ! j - slope * of_nat j
      in \<not> (\<exists>k \<in> {i<..<j}. series ! k \<ge> slope * of_nat k + offset))"

definition horizontal_visible :: "'a::linorder list \<Rightarrow> nat \<Rightarrow> nat \<Rightarrow> bool" where
  "horizontal_visible timeseries i j =
     (\<not> (\<exists>k \<in> {i<..<j}. timeseries ! k \<ge> max (timeseries ! i) (timeseries ! j)))"

section \<open>Auxiliary facts\<close>

subsection \<open>The container and the sequence operations\<close>

lemma directed_add_edge: "directed (add_edge G u v) = directed G"
  by (simp add: add_edge_def add_node_def Let_def)

lemma node_value_add_edge: "node_value (add_edge G u v) = node_value G"
  by (simp add: add_edge_def add_node_def Let_def)

lemma has_edge_add_node: "has_edge (add_node G w) u v = has_edge G u v"
  by (simp add: add_node_def has_edge_def)

lemma directed_add_node: "directed (add_node G w) = directed G"
  by (simp add: add_node_def)

lemma has_edge_add_edge:
  "has_edge (add_edge G a b) u v \<longleftrightarrow>
     has_edge G u v \<or> (u = a \<and> v = b) \<or> (\<not> directed G \<and> v = a \<and> u = b)"
proof -
  let ?H = "add_node (add_node G a) b"
  have H1: "has_edge ?H x y = has_edge G x y" for x y
    by (simp add: has_edge_add_node)
  have H2: "directed ?H = directed G"
    by (simp add: directed_add_node)
  have H3: "edges ?H = edges G"
    by (simp add: add_node_def)
  note H = H1 H2 H3
  show ?thesis
  proof (cases "has_edge ?H a b")
    case True
    then have "add_edge G a b = ?H" by (simp add: add_edge_def Let_def)
    with True H show ?thesis by (auto simp: has_edge_def)
  next
    case False
    then have "add_edge G a b = ?H\<lparr>edges := edges ?H @ [(a, b)]\<rparr>"
      by (simp add: add_edge_def Let_def)
    then show ?thesis using H by (auto simp: has_edge_def)
  qed
qed

lemma nodes_add_edge:
  "u \<in> set (nodes G) \<Longrightarrow> v \<in> set (nodes G) \<Longrightarrow> nodes (add_edge G u v) = nodes G"
  by (simp add: add_edge_def add_node_def Let_def)

lemma set_edges_add_edge: "set (edges (add_edge G a b)) \<subseteq> insert (a, b) (set (edges G))"
  by (auto simp: add_edge_def add_node_def Let_def)

lemma set_combinations2:
  "set (combinations2 xs) = {(xs ! i, xs ! j) | i j. i < j \<and> j < length xs}"
proof (induction xs)
  case Nil
  then show ?case by simp
next
  case (Cons x xs)
  show ?case
  proof (intro set_eqI iffI)
    fix p assume "p \<in> set (combinations2 (x # xs))"
    then consider "p \<in> Pair x ` set xs" | "p \<in> set (combinations2 xs)" by auto
    then show "p \<in> {((x # xs) ! i, (x # xs) ! j) | i j. i < j \<and> j < length (x # xs)}"
    proof cases
      case 1
      then obtain k where "k < length xs" "p = (x, xs ! k)" by (auto simp: in_set_conv_nth)
      then have "p = ((x # xs) ! 0, (x # xs) ! Suc k) \<and> 0 < Suc k \<and> Suc k < length (x # xs)" by simp
      then show ?thesis by blast
    next
      case 2
      with Cons.IH obtain i j where "i < j" "j < length xs" "p = (xs ! i, xs ! j)" by auto
      then have "p = ((x # xs) ! Suc i, (x # xs) ! Suc j) \<and> Suc i < Suc j \<and> Suc j < length (x # xs)" by simp
      then show ?thesis by blast
    qed
  next
    fix p assume "p \<in> {((x # xs) ! i, (x # xs) ! j) | i j. i < j \<and> j < length (x # xs)}"
    then obtain i j where ij: "i < j" "j < length (x # xs)" "p = ((x # xs) ! i, (x # xs) ! j)" by auto
    then obtain j' where j': "j = Suc j'" by (cases j) auto
    show "p \<in> set (combinations2 (x # xs))"
    proof (cases i)
      case 0
      with ij j' show ?thesis by auto
    next
      case (Suc i')
      with ij j' have "p = (xs ! i', xs ! j') \<and> i' < j' \<and> j' < length xs" by simp
      with Cons.IH have "p \<in> set (combinations2 xs)" by blast
      then show ?thesis by simp
    qed
  qed
qed

lemma combinations2_enumerate:
  "(p1, p2) \<in> set (combinations2 (enumerate 0 s)) \<longleftrightarrow>
     (\<exists>i j. i < j \<and> j < length s \<and> p1 = (i, s ! i) \<and> p2 = (j, s ! j))"
proof -
  have "(p1, p2) \<in> set (combinations2 (enumerate 0 s)) \<longleftrightarrow>
     (\<exists>i j. i < j \<and> j < length s \<and> p1 = enumerate 0 s ! i \<and> p2 = enumerate 0 s ! j)"
    by (auto simp: set_combinations2)
  also have "\<dots> \<longleftrightarrow> (\<exists>i j. i < j \<and> j < length s \<and> p1 = (i, s ! i) \<and> p2 = (j, s ! j))"
  proof -
    have "enumerate 0 s ! i = (i, s ! i) \<and> enumerate 0 s ! j = (j, s ! j)"
      if "i < j" "j < length s" for i j
      using that by (simp add: nth_enumerate_eq)
    then show ?thesis by metis
  qed
  finally show ?thesis .
qed

lemma list_ex_interior:
  "list_ex P (enumerate (i + 1) (slice s (i + 1) j)) \<longleftrightarrow>
     (\<exists>k. i < k \<and> k < j \<and> k < length s \<and> P (k, s ! k))"
proof
  assume "list_ex P (enumerate (i + 1) (slice s (i + 1) j))"
  then obtain p where p: "p \<in> set (enumerate (i + 1) (slice s (i + 1) j))" "P p"
    by (auto simp: list_ex_iff)
  obtain k t where kt: "p = (k, t)" by (cases p)
  from p(1) kt have "i + 1 \<le> k" "k < length (slice s (i + 1) j) + (i + 1)"
    "slice s (i + 1) j ! (k - (i + 1)) = t"
    by (auto simp: in_set_enumerate_eq)
  then have b: "i < k" "k < j" "k < length s" and t: "t = drop (i + 1) (take j s) ! (k - (i + 1))"
    by (auto simp: slice_def)
  from b have "drop (i + 1) (take j s) ! (k - (i + 1)) = take j s ! k"
    by simp
  with b t have "i < k \<and> k < j \<and> k < length s \<and> t = s ! k"
    by simp
  with p(2) kt show "\<exists>k. i < k \<and> k < j \<and> k < length s \<and> P (k, s ! k)" by blast
next
  assume "\<exists>k. i < k \<and> k < j \<and> k < length s \<and> P (k, s ! k)"
  then obtain k where k: "i < k" "k < j" "k < length s" "P (k, s ! k)" by blast
  then have "(k, s ! k) \<in> set (enumerate (i + 1) (slice s (i + 1) j))"
    by (auto simp: in_set_enumerate_eq slice_def)
  with k(4) show "list_ex P (enumerate (i + 1) (slice s (i + 1) j))"
    by (auto simp: list_ex_iff)
qed

subsection \<open>The scan over all pairs\<close>

lemma for_loop_fold:
  "(\<And>x s. x \<in> set xs \<Longrightarrow> body x s = Inr (f x s)) \<Longrightarrow> for_loop body xs s = Inr (fold f xs s)"
  by (induction xs arbitrary: s) simp_all

lemma dict_snoc: "dict (kvs @ [(k, v)]) = (dict kvs)(k \<mapsto> v)"
  by (simp add: dict_def)

lemma dict_enumerate:
  "dict (enumerate 0 s) i = (if i < length s then Some (s ! i) else None)"
proof (induction s rule: rev_induct)
  case Nil
  then show ?case by (simp add: dict_def)
next
  case (snoc x xs)
  have "enumerate 0 (xs @ [x]) = enumerate 0 xs @ [(length xs, x)]"
    by (simp add: enumerate_append_eq)
  then show ?case using snoc
    by (simp add: dict_snoc nth_append)
qed

lemma directed_scan_step: "directed (scan_step test c G) = directed G"
  by (simp add: scan_step_def directed_add_edge)

lemma directed_fold_scan: "directed (fold (scan_step test) cs G) = directed G"
  by (induction cs arbitrary: G) (simp_all add: directed_scan_step)

lemma node_value_fold_scan: "node_value (fold (scan_step test) cs G) = node_value G"
  by (induction cs arbitrary: G) (simp_all add: scan_step_def node_value_add_edge)

lemma nodes_fold_scan:
  "(\<And>c. c \<in> set cs \<Longrightarrow> fst (fst c) \<in> set (nodes G) \<and> fst (snd c) \<in> set (nodes G)) \<Longrightarrow>
   nodes (fold (scan_step test) cs G) = nodes G"
proof (induction cs arbitrary: G)
  case Nil
  then show ?case by simp
next
  case (Cons c cs)
  have n: "nodes (scan_step test c G) = nodes G"
    using Cons.prems [of c] by (simp add: scan_step_def nodes_add_edge)
  have "nodes (fold (scan_step test) cs (scan_step test c G)) = nodes (scan_step test c G)"
    by (rule Cons.IH) (use Cons.prems n in auto)
  with n show ?case by simp
qed

lemma has_edge_fold_scan:
  "has_edge (fold (scan_step test) cs G) u v \<longleftrightarrow>
     has_edge G u v \<or>
     (\<exists>c \<in> set cs. test c \<and>
        ((u = fst (fst c) \<and> v = fst (snd c)) \<or> (\<not> directed G \<and> v = fst (fst c) \<and> u = fst (snd c))))"
proof (induction cs arbitrary: G)
  case Nil
  then show ?case by simp
next
  case (Cons c cs)
  have "has_edge (fold (scan_step test) (c # cs) G) u v \<longleftrightarrow>
        has_edge (scan_step test c G) u v \<or>
     (\<exists>c' \<in> set cs. test c' \<and>
        ((u = fst (fst c') \<and> v = fst (snd c')) \<or> (\<not> directed G \<and> v = fst (fst c') \<and> u = fst (snd c'))))"
    by (simp add: Cons.IH directed_scan_step)
  moreover have "has_edge (scan_step test c G) u v \<longleftrightarrow>
     has_edge G u v \<or> (test c \<and>
        ((u = fst (fst c) \<and> v = fst (snd c)) \<or> (\<not> directed G \<and> v = fst (fst c) \<and> u = fst (snd c))))"
    by (auto simp: scan_step_def has_edge_add_edge)
  ultimately show ?case by auto
qed

lemma edges_fold_scan:
  "set (edges (fold (scan_step test) cs G)) \<subseteq>
     set (edges G) \<union> (\<lambda>c. (fst (fst c), fst (snd c))) ` set cs"
proof (induction cs arbitrary: G)
  case Nil
  then show ?case by simp
next
  case (Cons c cs)
  have "set (edges (scan_step test c G)) \<subseteq> insert (fst (fst c), fst (snd c)) (set (edges G))"
    using set_edges_add_edge [of G "fst (fst c)" "fst (snd c)"] by (auto simp: scan_step_def)
  with Cons.IH [of "scan_step test c G"] show ?case by auto
qed

lemma has_edge_seed:
  "has_edge (set_node_attributes (path_graph n d) m) u v \<longleftrightarrow>
     (v = Suc u \<and> v < n) \<or> (\<not> d \<and> u = Suc v \<and> u < n)"
  by (auto simp: has_edge_def set_node_attributes_def path_graph_def)

lemma nodes_seed: "nodes (set_node_attributes (path_graph n d) m) = [0..<n]"
  by (simp add: set_node_attributes_def path_graph_def)

lemma directed_seed: "directed (set_node_attributes (path_graph n d) m) = d"
  by (simp add: set_node_attributes_def path_graph_def)

lemma edges_seed: "edges (set_node_attributes (path_graph n d) m) = map (\<lambda>i. (i, Suc i)) [0..<n - 1]"
  by (simp add: set_node_attributes_def path_graph_def)

lemma node_value_seed:
  "node_value (set_node_attributes (path_graph (length s) d) (dict (enumerate 0 s))) i =
     (if i < length s then Some (s ! i) else None)"
  by (simp add: set_node_attributes_def path_graph_def dict_enumerate)

subsection \<open>The generators as scans\<close>

lemma natural_test_visible:
  assumes "i < j" "j < length s"
  shows "natural_test s ((i, s ! i), (j, s ! j)) = natural_visible s i j"
proof -
  have "(\<exists>k. i < k \<and> k < j \<and> k < length s \<and> P k) \<longleftrightarrow> (\<exists>k \<in> {i<..<j}. P k)" for P
    using assms by auto
  then show ?thesis
    by (simp only: natural_test_def natural_visible_def Let_def prod.case list_ex_interior)
qed

lemma horizontal_test_visible:
  assumes "i < j" "j < length s"
  shows "horizontal_test s ((i, s ! i), (j, s ! j)) = horizontal_visible s i j"
proof -
  have "(\<exists>k. i < k \<and> k < j \<and> k < length s \<and> P k) \<longleftrightarrow> (\<exists>k \<in> {i<..<j}. P k)" for P
    using assms by auto
  then show ?thesis
    by (simp only: horizontal_test_def horizontal_visible_def prod.case list_ex_interior)
qed

lemma interior_Suc_empty: "{i<..<Suc i} = {}"
  by auto

lemma natural_visible_Suc: "natural_visible s i (Suc i)"
  by (simp only: natural_visible_def Let_def interior_Suc_empty) simp

lemma horizontal_visible_Suc: "horizontal_visible s i (Suc i)"
  by (simp only: horizontal_visible_def interior_Suc_empty) simp

lemma horizontal_visibility_graph_scan:
  "horizontal_visibility_graph s =
     fold (scan_step (horizontal_test s)) (combinations2 (enumerate 0 s))
       (set_node_attributes (path_graph (length s) False) (dict (enumerate 0 s)))"
proof -
  have "(\<lambda>((n1, t1), (n2, t2)) G.
           let obstructed = list_ex (\<lambda>(n, t). t \<ge> max t1 t2) (enumerate (n1 + 1) (slice s (n1 + 1) n2))
           in if \<not> obstructed then add_edge G n1 n2 else G) = scan_step (horizontal_test s)"
    by (auto simp: fun_eq_iff scan_step_def horizontal_test_def)
  then show ?thesis
    by (simp add: horizontal_visibility_graph_def Let_def)
qed

lemma directed_horizontal_visibility_graph_scan:
  "directed_horizontal_visibility_graph s =
     fold (scan_step (horizontal_test s)) (combinations2 (enumerate 0 s))
       (set_node_attributes (path_graph (length s) True) (dict (enumerate 0 s)))"
proof -
  have "(\<lambda>((n1, t1), (n2, t2)) G.
           let obstructed = list_ex (\<lambda>(n, t). t \<ge> max t1 t2) (enumerate (n1 + 1) (slice s (n1 + 1) n2))
           in if \<not> obstructed then add_edge G n1 n2 else G) = scan_step (horizontal_test s)"
    by (auto simp: fun_eq_iff scan_step_def horizontal_test_def)
  then show ?thesis
    by (simp add: directed_horizontal_visibility_graph_def Let_def)
qed

lemma visibility_graph_body_scan:
  assumes "n1 \<noteq> n2"
  shows "visibility_graph_body s ((n1, t1), (n2, t2)) G = Inr (scan_step (natural_test s) ((n1, t1), (n2, t2)) G)"
proof -
  have "(of_nat n2 :: 'a) - of_nat n1 \<noteq> 0" using assms by simp
  then show ?thesis
    by (simp add: visibility_graph_body_def true_div_def scan_step_def natural_test_def Let_def)
qed

lemma visibility_graph_scan:
  "visibility_graph s =
     Inr (fold (scan_step (natural_test s)) (combinations2 (enumerate 0 s))
       (set_node_attributes (path_graph (length s) False) (dict (enumerate 0 s))))"
proof -
  have "visibility_graph_body s c G = Inr (scan_step (natural_test s) c G)"
    if "c \<in> set (combinations2 (enumerate 0 s))" for c G
  proof -
    obtain p1 p2 where c: "c = (p1, p2)" by (cases c)
    with that obtain i j where "i < j" "p1 = (i, s ! i)" "p2 = (j, s ! j)"
      by (auto simp: combinations2_enumerate)
    with c show ?thesis by (simp add: visibility_graph_body_scan)
  qed
  then show ?thesis
    by (simp add: visibility_graph_def Let_def for_loop_fold)
qed

lemma has_edge_scan:
  assumes vis: "\<And>i j. i < j \<Longrightarrow> j < length s \<Longrightarrow> test ((i, s ! i), (j, s ! j)) = V i j"
    and adj: "\<And>i. V i (Suc i)"
  shows "has_edge (fold (scan_step test) (combinations2 (enumerate 0 s))
            (set_node_attributes (path_graph (length s) d) m)) u v \<longleftrightarrow>
         (u < v \<and> v < length s \<and> V u v) \<or> (\<not> d \<and> v < u \<and> u < length s \<and> V v u)"
    (is "?L \<longleftrightarrow> ?R")
proof -
  let ?cs = "combinations2 (enumerate 0 s)"
  have scan: "(\<exists>c \<in> set ?cs. test c \<and> a = fst (fst c) \<and> b = fst (snd c)) \<longleftrightarrow>
        (a < b \<and> b < length s \<and> V a b)" for a b
  proof
    assume "\<exists>c \<in> set ?cs. test c \<and> a = fst (fst c) \<and> b = fst (snd c)"
    then obtain p1 p2 where c: "(p1, p2) \<in> set ?cs" "test (p1, p2)" "a = fst p1" "b = fst p2"
      by auto
    from c(1) obtain i j where ij: "i < j" "j < length s" "p1 = (i, s ! i)" "p2 = (j, s ! j)"
      by (auto simp: combinations2_enumerate)
    with c vis [of i j] show "a < b \<and> b < length s \<and> V a b" by simp
  next
    assume r: "a < b \<and> b < length s \<and> V a b"
    then have "((a, s ! a), (b, s ! b)) \<in> set ?cs"
      by (auto simp: combinations2_enumerate)
    moreover from r vis [of a b] have "test ((a, s ! a), (b, s ! b))" by simp
    ultimately show "\<exists>c \<in> set ?cs. test c \<and> a = fst (fst c) \<and> b = fst (snd c)"
      by force
  qed
  have "?L \<longleftrightarrow> ((v = Suc u \<and> v < length s) \<or> (\<not> d \<and> u = Suc v \<and> u < length s)) \<or>
      (\<exists>c \<in> set ?cs. test c \<and> u = fst (fst c) \<and> v = fst (snd c)) \<or>
      (\<not> d \<and> (\<exists>c \<in> set ?cs. test c \<and> v = fst (fst c) \<and> u = fst (snd c)))"
    unfolding has_edge_fold_scan has_edge_seed directed_seed by blast
  also have "\<dots> \<longleftrightarrow> ((v = Suc u \<and> v < length s) \<or> (\<not> d \<and> u = Suc v \<and> u < length s)) \<or>
      (u < v \<and> v < length s \<and> V u v) \<or> (\<not> d \<and> v < u \<and> u < length s \<and> V v u)"
    unfolding scan ..
  also have "\<dots> \<longleftrightarrow> ?R"
    using adj by auto
  finally show ?thesis .
qed

lemma nodes_scan:
  "nodes (fold (scan_step test) (combinations2 (enumerate 0 s))
            (set_node_attributes (path_graph (length s) d) m)) = [0..<length s]"
proof -
  have "nodes (fold (scan_step test) (combinations2 (enumerate 0 s))
            (set_node_attributes (path_graph (length s) d) m)) =
        nodes (set_node_attributes (path_graph (length s) d) m)"
  proof (rule nodes_fold_scan)
    fix c assume c: "c \<in> set (combinations2 (enumerate 0 s))"
    obtain p1 p2 where "c = (p1, p2)" by (cases c)
    with c obtain i j where "i < j" "j < length s" "p1 = (i, s ! i)" "p2 = (j, s ! j)"
      by (auto simp: combinations2_enumerate)
    with \<open>c = (p1, p2)\<close>
    show "fst (fst c) \<in> set (nodes (set_node_attributes (path_graph (length s) d) m)) \<and>
          fst (snd c) \<in> set (nodes (set_node_attributes (path_graph (length s) d) m))"
      by (simp add: nodes_seed)
  qed
  then show ?thesis by (simp add: nodes_seed)
qed

lemma edges_scan_ordered:
  assumes "(a, b) \<in> set (edges (fold (scan_step test) (combinations2 (enumerate 0 s))
            (set_node_attributes (path_graph (length s) d) m)))"
  shows "a < b \<and> b < length s"
proof -
  from assms edges_fold_scan
  have "(a, b) \<in> set (edges (set_node_attributes (path_graph (length s) d) m)) \<union>
      (\<lambda>c. (fst (fst c), fst (snd c))) ` set (combinations2 (enumerate 0 s))"
    by blast
  then show ?thesis
  proof
    assume "(a, b) \<in> set (edges (set_node_attributes (path_graph (length s) d) m))"
    then show ?thesis by (auto simp: edges_seed)
  next
    assume "(a, b) \<in> (\<lambda>c. (fst (fst c), fst (snd c))) ` set (combinations2 (enumerate 0 s))"
    then obtain p1 p2 where "(p1, p2) \<in> set (combinations2 (enumerate 0 s))" "a = fst p1" "b = fst p2"
      by auto
    then show ?thesis by (auto simp: combinations2_enumerate)
  qed
qed

subsection \<open>The edges of the three results\<close>

lemma has_edge_visibility_graph:
  "\<exists>G. visibility_graph s = Inr G \<and>
     (\<forall>u v. has_edge G u v \<longleftrightarrow>
        (u < v \<and> v < length s \<and> natural_visible s u v) \<or>
        (v < u \<and> u < length s \<and> natural_visible s v u))"
  by (simp add: visibility_graph_scan has_edge_scan [where V = "natural_visible s"]
      natural_test_visible natural_visible_Suc)

lemma has_edge_horizontal_visibility_graph:
  "has_edge (horizontal_visibility_graph s) u v \<longleftrightarrow>
        (u < v \<and> v < length s \<and> horizontal_visible s u v) \<or>
        (v < u \<and> u < length s \<and> horizontal_visible s v u)"
  by (simp add: horizontal_visibility_graph_scan has_edge_scan [where V = "horizontal_visible s"]
      horizontal_test_visible horizontal_visible_Suc)

lemma has_edge_directed_horizontal_visibility_graph:
  "has_edge (directed_horizontal_visibility_graph s) u v \<longleftrightarrow>
        (u < v \<and> v < length s \<and> horizontal_visible s u v)"
  by (simp add: directed_horizontal_visibility_graph_scan has_edge_scan [where V = "horizontal_visible s"]
      horizontal_test_visible horizontal_visible_Suc)

subsection \<open>Orientation, and a shift of all values\<close>

lemma has_edge_fold_scan_mono:
  "has_edge G u v \<Longrightarrow> has_edge (fold (scan_step test) cs G) u v"
  by (simp add: has_edge_fold_scan)

lemma edges_add_edge_ordered:
  assumes "\<forall>e \<in> set (edges G). fst e < snd e" "a < b"
  shows "edges (add_edge G a b) = (if (a, b) \<in> set (edges G) then edges G else edges G @ [(a, b)])"
proof -
  let ?H = "add_node (add_node G a) b"
  have H: "edges ?H = edges G" "directed ?H = directed G"
    by (simp_all add: add_node_def)
  from assms have "(b, a) \<notin> set (edges G)" by force
  then have "has_edge ?H a b \<longleftrightarrow> (a, b) \<in> set (edges G)"
    by (simp add: has_edge_def H)
  then show ?thesis
    by (simp add: add_edge_def Let_def H)
qed

lemma edges_fold_scan_cong:
  assumes "edges G = edges G'" "\<forall>e \<in> set (edges G). fst e < snd e"
    "\<forall>c \<in> set cs. fst (fst c) < fst (snd c)"
  shows "edges (fold (scan_step test) cs G) = edges (fold (scan_step test) cs G')"
  using assms
proof (induction cs arbitrary: G G')
  case Nil
  then show ?case by simp
next
  case (Cons c cs)
  from Cons.prems have lt: "fst (fst c) < fst (snd c)" by simp
  have 1: "edges (scan_step test c G) = edges (scan_step test c G')"
    using Cons.prems(1,2) lt by (simp add: scan_step_def edges_add_edge_ordered)
  have 2: "\<forall>e \<in> set (edges (scan_step test c G)). fst e < snd e"
    using Cons.prems(2) lt by (auto simp: scan_step_def edges_add_edge_ordered)
  have "edges (fold (scan_step test) cs (scan_step test c G)) =
        edges (fold (scan_step test) cs (scan_step test c G'))"
    using 1 2 Cons.prems(3) by (intro Cons.IH) auto
  then show ?case by simp
qed

lemma combinations2_enumerate_ordered:
  "\<forall>c \<in> set (combinations2 (enumerate 0 s)). fst (fst c) < fst (snd c)"
proof
  fix c assume c: "c \<in> set (combinations2 (enumerate 0 s))"
  obtain p1 p2 where "c = (p1, p2)" by (cases c)
  with c show "fst (fst c) < fst (snd c)"
    by (auto simp: combinations2_enumerate)
qed



section \<open>The claims\<close>



text \<open>
  C2. For every series and every pair of indices \<open>i < j\<close> of it, the graph of
  \<^verbatim>\<open>horizontal_visibility_graph\<close> has the edge \<open>{i, j}\<close> if and only if no index \<open>k\<close>
  strictly between them has \<open>series[k] \<ge> max(series[i], series[j])\<close>.
\<close>

theorem horizontal_visibility_graph_edge_iff:
  assumes "i < j" "j < length timeseries"
  shows "(has_edge (horizontal_visibility_graph timeseries) i j \<longleftrightarrow>
         \<not> (\<exists>k. i < k \<and> k < j \<and> timeseries ! k \<ge> max (timeseries ! i) (timeseries ! j))) \<and>
       (has_edge (horizontal_visibility_graph timeseries) j i \<longleftrightarrow>
          has_edge (horizontal_visibility_graph timeseries) i j)"
proof -
  have "has_edge (horizontal_visibility_graph timeseries) i j \<longleftrightarrow>
         \<not> (\<exists>k. i < k \<and> k < j \<and> timeseries ! k \<ge> max (timeseries ! i) (timeseries ! j))"
    using assms by (simp only: has_edge_horizontal_visibility_graph horizontal_visible_def Bex_def) auto
  moreover have "has_edge (horizontal_visibility_graph timeseries) j i \<longleftrightarrow>
          has_edge (horizontal_visibility_graph timeseries) i j"
    by (auto simp: has_edge_horizontal_visibility_graph)
  ultimately show ?thesis by blast
qed

theorem horizontal_visibility_graph_edge_iff_witness:
  "has_edge (horizontal_visibility_graph [0, 1, 2 :: int]) 0 2 \<and>
   has_edge (horizontal_visibility_graph [0, 1, 2 :: int]) 2 0"
proof -
  have k: "k = 1" if "0 < k" "k < 2" for k :: nat
    using that by arith
  have "\<not> (\<exists>k::nat. 0 < k \<and> k < 2 \<and> [0, 1, 2 :: int] ! k \<ge> max ([0, 1, 2] ! 0) ([0, 1, 2] ! 2))"
    by (auto dest: k)
  then show ?thesis
    using horizontal_visibility_graph_edge_iff [of 0 2 "[0, 1, 2 :: int]"] by simp
qed

text \<open>
  C3. Every edge of the graph of \<^verbatim>\<open>directed_horizontal_visibility_graph\<close> goes from the
  smaller index to the larger one: the graph is directed, \<open>has_edge u v\<close> forces \<open>u < v\<close>,
  and every stored pair is in that order. The edges of the seed path have the orientation
  that the model of \<^verbatim>\<open>path_graph\<close> gives them.
\<close>

theorem directed_edges_forward:
  "directed (directed_horizontal_visibility_graph timeseries) \<and>
   (\<forall>u v. has_edge (directed_horizontal_visibility_graph timeseries) u v \<longrightarrow> u < v) \<and>
   (\<forall>e \<in> set (edges (directed_horizontal_visibility_graph timeseries)). fst e < snd e)"
proof -
  have "directed (directed_horizontal_visibility_graph timeseries)"
    by (simp add: directed_horizontal_visibility_graph_scan directed_fold_scan directed_seed)
  moreover have "u < v" if "has_edge (directed_horizontal_visibility_graph timeseries) u v" for u v
    using that by (simp add: has_edge_directed_horizontal_visibility_graph)
  moreover have "fst e < snd e"
    if "e \<in> set (edges (directed_horizontal_visibility_graph timeseries))" for e
    using that edges_scan_ordered [of "fst e" "snd e" "horizontal_test timeseries" timeseries True]
    by (simp add: directed_horizontal_visibility_graph_scan)
  ultimately show ?thesis by blast
qed

theorem directed_edges_forward_witness:
  "has_edge (directed_horizontal_visibility_graph [0, 1, 2 :: int]) 0 2 \<and>
   \<not> has_edge (directed_horizontal_visibility_graph [0, 1, 2 :: int]) 2 0 \<and>
   (0, 2) \<in> set (edges (directed_horizontal_visibility_graph [0, 1, 2 :: int]))"
proof -
  have e: "edges (directed_horizontal_visibility_graph [0, 1, 2 :: int]) = [(0, 1), (1, 2), (0, 2)]"
    by code_simp
  have "has_edge (directed_horizontal_visibility_graph [0, 1, 2 :: int]) 0 2"
    by (simp add: has_edge_def e)
  moreover have "\<not> has_edge (directed_horizontal_visibility_graph [0, 1, 2 :: int]) 2 0"
    using directed_edges_forward [of "[0, 1, 2 :: int]"] by force
  ultimately show ?thesis using e by simp
qed

text \<open>
  C4. For a series of length at least 2 and every \<open>i\<close> from \<open>0\<close> to \<open>n - 2\<close>, the edge
  between \<open>i\<close> and \<open>i + 1\<close> is in the seed path, stays there through any scan whatever the
  test, and is in the result of each of the three generators.
\<close>

theorem consecutive_edges:
  assumes "2 \<le> length series" "i \<le> length series - 2"
  shows "has_edge (path_graph (length series) d :: 'a::linordered_field graph) i (i + 1) \<and>
    (\<forall>test cs m. has_edge (fold (scan_step test) cs
        (set_node_attributes (path_graph (length series) d :: 'a graph) m)) i (i + 1)) \<and>
    (\<exists>G. visibility_graph series = Inr G \<and> has_edge G i (i + 1)) \<and>
    has_edge (horizontal_visibility_graph series) i (i + 1) \<and>
    has_edge (directed_horizontal_visibility_graph series) i (i + 1)"
proof -
  from assms have i: "Suc i < length series" by arith
  have "has_edge (path_graph (length series) d :: 'a graph) i (i + 1)"
    using i by (auto simp: has_edge_def path_graph_def)
  moreover have "has_edge (fold (scan_step test) cs
        (set_node_attributes (path_graph (length series) d :: 'a graph) m)) i (i + 1)" for test cs m
    using i by (simp add: has_edge_fold_scan_mono has_edge_seed)
  moreover have "\<exists>G. visibility_graph series = Inr G \<and> has_edge G i (i + 1)"
    using i has_edge_visibility_graph [of series] by (auto simp: natural_visible_Suc)
  moreover have "has_edge (horizontal_visibility_graph series) i (i + 1)"
    using i by (simp add: has_edge_horizontal_visibility_graph horizontal_visible_Suc)
  moreover have "has_edge (directed_horizontal_visibility_graph series) i (i + 1)"
    using i by (simp add: has_edge_directed_horizontal_visibility_graph horizontal_visible_Suc)
  ultimately show ?thesis by blast
qed

theorem consecutive_edges_witness:
  "(\<exists>G. visibility_graph [3, 1, 2 :: rat] = Inr G \<and> has_edge G 1 2) \<and>
    has_edge (horizontal_visibility_graph [3, 1, 2 :: rat]) 1 2 \<and>
    has_edge (directed_horizontal_visibility_graph [3, 1, 2 :: rat]) 1 2"
proof -
  have h1: "2 \<le> length [3, 1, 2 :: rat]"
    by simp
  have h2: "(1::nat) \<le> length [3, 1, 2 :: rat] - 2"
    by simp
  have t: "(1::nat) + 1 = 2"
    by simp
  show ?thesis
    using consecutive_edges [OF h1 h2, of False] unfolding t by blast
qed

text \<open>
  C5. The result of each of the three generators has the nodes \<open>0..n-1\<close> in order, so as
  many nodes as the series has values, and the attribute \<^verbatim>\<open>value\<close> of node \<open>i\<close> is
  \<open>series[i]\<close>.
\<close>

theorem nodes_and_values:
  "(\<exists>G. visibility_graph series = Inr G \<and> nodes G = [0..<length series] \<and>
        number_of_nodes G = length series \<and>
        (\<forall>i < length series. node_value G i = Some (series ! i))) \<and>
   (let G = horizontal_visibility_graph series
    in nodes G = [0..<length series] \<and> number_of_nodes G = length series \<and>
       (\<forall>i < length series. node_value G i = Some (series ! i))) \<and>
   (let G = directed_horizontal_visibility_graph series
    in nodes G = [0..<length series] \<and> number_of_nodes G = length series \<and>
       (\<forall>i < length series. node_value G i = Some (series ! i)))"
  by (simp add: visibility_graph_scan horizontal_visibility_graph_scan
      directed_horizontal_visibility_graph_scan Let_def nodes_scan number_of_nodes_def
      node_value_fold_scan node_value_seed)

theorem nodes_and_values_witness:
  "(\<exists>G. visibility_graph [3, 1, 2 :: rat] = Inr G \<and> nodes G = [0, 1, 2] \<and>
        number_of_nodes G = 3 \<and> node_value G 1 = Some 1) \<and>
   nodes (horizontal_visibility_graph [3, 1, 2 :: rat]) = [0, 1, 2] \<and>
   node_value (horizontal_visibility_graph [3, 1, 2 :: rat]) 2 = Some 2 \<and>
   nodes (directed_horizontal_visibility_graph [3, 1, 2 :: rat]) = [0, 1, 2] \<and>
   node_value (directed_horizontal_visibility_graph [3, 1, 2 :: rat]) 0 = Some 3"
proof -
  have u: "[0..<length [3, 1, 2 :: rat]] = [0, 1, 2]"
    by (simp add: upt_rec)
  show ?thesis
    using nodes_and_values [of "[3, 1, 2 :: rat]"] unfolding Let_def u by force
qed

text \<open>
  C6. The claim is that every edge of \<^verbatim>\<open>horizontal_visibility_graph\<close> is an edge of
  \<^verbatim>\<open>visibility_graph\<close>. On the series \<open>0, 1, 2\<close> the horizontal graph has the edge
  \<open>{0, 2}\<close> (the middle value \<open>1\<close> is below \<open>max(0, 2)\<close>) and the natural graph does not
  (the middle value lies on the line).
\<close>

theorem horizontal_edge_not_natural:
  "has_edge (horizontal_visibility_graph [0, 1, 2 :: rat]) 0 2 \<and>
   (\<exists>G. visibility_graph [0, 1, 2 :: rat] = Inr G \<and> \<not> has_edge G 0 2)"
proof -
  have "has_edge (horizontal_visibility_graph [0, 1, 2 :: rat]) 0 2"
    by code_simp
  moreover have "case visibility_graph [0, 1, 2 :: rat] of Inl e \<Rightarrow> False
    | Inr G \<Rightarrow> \<not> has_edge G 0 2"
    by code_simp
  then have "\<exists>G. visibility_graph [0, 1, 2 :: rat] = Inr G \<and> \<not> has_edge G 0 2"
    by (cases "visibility_graph [0, 1, 2 :: rat]") simp_all
  ultimately show ?thesis by blast
qed

text \<open>
  C7. \<^verbatim>\<open>directed_horizontal_visibility_graph\<close> and \<^verbatim>\<open>horizontal_visibility_graph\<close> store
  the same pairs in the same order, and the undirected graph has an edge between \<open>u\<close> and
  \<open>v\<close> exactly when the directed graph has it in one of the two orientations.
\<close>

theorem directed_horizontal_same_edges:
  "edges (directed_horizontal_visibility_graph timeseries) =
     edges (horizontal_visibility_graph timeseries) \<and>
   (\<forall>u v. has_edge (horizontal_visibility_graph timeseries) u v \<longleftrightarrow>
      has_edge (directed_horizontal_visibility_graph timeseries) u v \<or>
      has_edge (directed_horizontal_visibility_graph timeseries) v u)"
proof -
  have "edges (directed_horizontal_visibility_graph timeseries) =
     edges (horizontal_visibility_graph timeseries)"
    unfolding directed_horizontal_visibility_graph_scan horizontal_visibility_graph_scan
    by (rule edges_fold_scan_cong) (auto simp: edges_seed combinations2_enumerate_ordered)
  moreover have "has_edge (horizontal_visibility_graph timeseries) u v \<longleftrightarrow>
      has_edge (directed_horizontal_visibility_graph timeseries) u v \<or>
      has_edge (directed_horizontal_visibility_graph timeseries) v u" for u v
    by (simp add: has_edge_horizontal_visibility_graph has_edge_directed_horizontal_visibility_graph)
  ultimately show ?thesis by blast
qed

theorem directed_horizontal_same_edges_witness:
  "edges (directed_horizontal_visibility_graph [2, 1, 3 :: int]) = [(0, 1), (1, 2), (0, 2)] \<and>
   edges (horizontal_visibility_graph [2, 1, 3 :: int]) = [(0, 1), (1, 2), (0, 2)]"
proof -
  have "edges (directed_horizontal_visibility_graph [2, 1, 3 :: int]) = [(0, 1), (1, 2), (0, 2)]"
    by code_simp
  with directed_horizontal_same_edges [of "[2, 1, 3 :: int]"] show ?thesis by simp
qed

text \<open>
  C8. On the series \<open>0, 1, ..., 9\<close> (\<^verbatim>\<open>range(10)\<close>) \<^verbatim>\<open>visibility_graph\<close> returns a graph
  with 10 nodes and 9 edges, the edges between consecutive indices: every value between two
  indices lies on the line and obstructs.
\<close>

theorem visibility_graph_range_10:
  "\<exists>G. visibility_graph (map of_nat [0..<10] :: rat list) = Inr G \<and>
     number_of_nodes G = 10 \<and> number_of_edges G = 9 \<and>
     edges G = [(0, 1), (1, 2), (2, 3), (3, 4), (4, 5), (5, 6), (6, 7), (7, 8), (8, 9)]"
proof -
  have "case visibility_graph (map of_nat [0..<10] :: rat list) of Inl e \<Rightarrow> False
    | Inr G \<Rightarrow> number_of_nodes G = 10 \<and> number_of_edges G = 9 \<and>
        edges G = [(0, 1), (1, 2), (2, 3), (3, 4), (4, 5), (5, 6), (6, 7), (7, 8), (8, 9)]"
    by code_simp
  then show ?thesis
    by (cases "visibility_graph (map of_nat [0..<10] :: rat list)") simp_all
qed

text \<open>
  C9. The claim is that \<^verbatim>\<open>horizontal_visibility_graph\<close> on the series
  \<open>2, 1, 3, 2, 1, 3, 2, 1, 3, 2, 1, 3\<close> has 12 nodes and 18 edges, as the docstring of the
  function prints. The function returns 12 nodes and 21 edges.
\<close>

theorem horizontal_periodic_21_edges:
  "number_of_nodes (horizontal_visibility_graph [2, 1, 3, 2, 1, 3, 2, 1, 3, 2, 1, 3 :: int]) = 12 \<and>
   number_of_edges (horizontal_visibility_graph [2, 1, 3, 2, 1, 3, 2, 1, 3, 2, 1, 3 :: int]) = 21"
  by code_simp



end
